theory Spec2Isabelle
  imports Main
begin

section \<open>Exceptions\<close>

text \<open>
  Every exception the two modules can raise is a value of this type. \<open>Z3Exception\<close> is what
  the z3 bindings raise on an ill-formed term or sort (an extraction whose bounds are out of
  order or out of range, a bit-vector sort of width zero). \<open>ErrorRaised\<close> is the exception
  of \<^verbatim>\<open>raise Error()\<close> and of the call \<^verbatim>\<open>error(...)\<close>; neither name is defined in
  the two modules, so what propagates is Python's NameError. \<open>WrongCountOfBits\<close> is
  \<^verbatim>\<open>Exception("wrong count of bits")\<close> of \<open>mingle\<close>, and \<open>CreationError\<close> is what
  \<^verbatim>\<open>Bits(uint=k, length=n)\<close> raises when \<open>k\<close> does not fit in \<open>n\<close> bits;
  \<open>InterpretError\<close> is what \<^verbatim>\<open>.uint\<close> raises on an empty bit string. \<open>TypeError\<close> is
  Python's answer to a call with the wrong number of arguments, \<open>AttributeError\<close> to a
  method the object does not have.
\<close>

datatype error =
  Z3Exception | ErrorRaised | WrongCountOfBits | KeyError | IndexError | CreationError |
  InterpretError | TypeError | AttributeError

text \<open>Sequencing of a computation that may raise: the first error propagates.\<close>

definition bindE :: "error + 'a \<Rightarrow> ('a \<Rightarrow> error + 'b) \<Rightarrow> error + 'b" where
  "bindE m f = (case m of Inl e \<Rightarrow> Inl e | Inr x \<Rightarrow> f x)"

text \<open>A loop that collects results and stops at the first exception.\<close>

fun mapE :: "('a \<Rightarrow> error + 'b) \<Rightarrow> 'a list \<Rightarrow> error + 'b list" where
  "mapE f [] = Inr []"
| "mapE f (x # xs) = bindE (f x) (\<lambda>y. bindE (mapE f xs) (\<lambda>ys. Inr (y # ys)))"

section \<open>Python lists and dictionaries\<close>

text \<open>Indexing a list by a non-negative index: IndexError out of range.\<close>

definition py_nth :: "'a list \<Rightarrow> nat \<Rightarrow> error + 'a" where
  "py_nth xs k = (if k < length xs then Inr (xs ! k) else Inl IndexError)"

text \<open>Indexing a list by a Python integer: a negative index counts from the end.\<close>

definition py_index :: "'a list \<Rightarrow> int \<Rightarrow> error + 'a" where
  "py_index xs i =
     (if 0 \<le> i \<and> i < int (length xs) then Inr (xs ! nat i)
      else if i < 0 \<and> - int (length xs) \<le> i then Inr (xs ! nat (int (length xs) + i))
      else Inl IndexError)"

text \<open>
  A dictionary read: KeyError on a missing key.
\<close>

definition lookup :: "('k \<rightharpoonup> 'v) \<Rightarrow> 'k \<Rightarrow> error + 'v" where
  "lookup d k = (case d k of None \<Rightarrow> Inl KeyError | Some v \<Rightarrow> Inr v)"

text \<open>\<^verbatim>\<open>slist.index('?')\<close>: the first position holding the value, \<open>None\<close> for ValueError.\<close>

fun list_index :: "'a list \<Rightarrow> 'a \<Rightarrow> nat option" where
  "list_index [] a = None"
| "list_index (x # xs) a = (if x = a then Some 0 else map_option Suc (list_index xs a))"

section \<open>Bit strings\<close>

text \<open>
  A \<^verbatim>\<open>Bits\<close> object is the list of its bits, index 0 the most significant.
  \<open>bits_of n k\<close> are the low \<open>n\<close> bits of \<open>k\<close>; \<^verbatim>\<open>Bits(uint=k, length=n)\<close> is
  \<open>Bits_uint k n\<close>, and \<^verbatim>\<open>.uint\<close> reads a bit string as an unsigned integer.
\<close>

fun bits_of :: "nat \<Rightarrow> nat \<Rightarrow> bool list" where
  "bits_of 0 k = []"
| "bits_of (Suc n) k = bit k n # bits_of n k"

definition Bits_uint :: "nat \<Rightarrow> nat \<Rightarrow> error + bool list" where
  "Bits_uint k len = (if len = 0 \<or> 2 ^ len \<le> k then Inl CreationError else Inr (bits_of len k))"

fun uint :: "bool list \<Rightarrow> nat" where
  "uint [] = 0"
| "uint (b # bs) = (if b then 2 ^ length bs else 0) + uint bs"

text \<open>\<^verbatim>\<open>.uint\<close> of a \<^verbatim>\<open>Bits\<close> object: an empty bit string has no integer reading.\<close>

definition Bits_to_uint :: "bool list \<Rightarrow> error + nat" where
  "Bits_to_uint bs = (if bs = [] then Inl InterpretError else Inr (uint bs))"


section \<open>The z3 terms and verdicts the modules use\<close>

text \<open>
  A bit-vector term is modelled by its width and its value under a valuation \<open>'e\<close> of the
  free variables; a constant ignores the valuation. z3 has no bit-vector sort of width zero,
  and \<^verbatim>\<open>Extract(high, low, a)\<close> demands \<open>0 \<le> low \<le> high < a.size()\<close>: both raise
  otherwise, while the term is being built.
\<close>

type_synonym 'e bv = "nat \<times> ('e \<Rightarrow> nat)"

definition bv_size :: "'e bv \<Rightarrow> nat" where
  "bv_size bv = fst bv"

definition bv_val :: "'e bv \<Rightarrow> 'e \<Rightarrow> nat" where
  "bv_val bv = snd bv"

definition BitVecSort :: "nat \<Rightarrow> error + nat" where
  "BitVecSort width = (if width = 0 then Inl Z3Exception else Inr width)"

text \<open>\<^verbatim>\<open>BitVec(name, width)\<close>: a variable, read from the valuation by \<open>var\<close>.\<close>

definition BitVec :: "('e \<Rightarrow> nat) \<Rightarrow> nat \<Rightarrow> error + 'e bv" where
  "BitVec var width = bindE (BitVecSort width) (\<lambda>w. Inr (w, var))"

text \<open>
  \<^verbatim>\<open>BitVecVal(val, width)\<close>: a constant.
\<close>

definition BitVecVal :: "nat \<Rightarrow> nat \<Rightarrow> 'e bv" where
  "BitVecVal val width = (width, \<lambda>e. val mod 2 ^ width)"

definition Extract :: "int \<Rightarrow> int \<Rightarrow> 'e bv \<Rightarrow> error + 'e bv" where
  "Extract high low bv =
     (if 0 \<le> low \<and> low \<le> high \<and> high < int (bv_size bv)
      then Inr (nat (high - low + 1),
                \<lambda>e. (bv_val bv e div 2 ^ nat low) mod 2 ^ nat (high - low + 1))
      else Inl Z3Exception)"

definition Concat :: "'e bv \<Rightarrow> 'e bv \<Rightarrow> 'e bv" where
  "Concat hi lo = (bv_size hi + bv_size lo, \<lambda>e. bv_val hi e * 2 ^ bv_size lo + bv_val lo e)"

text \<open>
  \<^verbatim>\<open>simplify(t).as_long()\<close> is the value of a constant term; \<^verbatim>\<open>simplify\<close> does not
  change the value of a term, and it refuses what is not a z3 term (an object of the class
  \<^verbatim>\<open>Empty\<close> of vexshape.py, the only term of width 0 in the model).
\<close>

definition as_long :: "unit bv \<Rightarrow> error + nat" where
  "as_long bv = (if bv_size bv = 0 then Inl Z3Exception else Inr (bv_val bv ()))"

text \<open>
  What a solver hands back: a verdict, \<open>sat\<close> with a model, \<open>unsat\<close> or \<open>unknown\<close>.
\<close>

datatype 'm check_result = Sat 'm | Unsat | Unknown_result

text \<open>
  A z3 \<^verbatim>\<open>FuncInterp\<close> is a finite list of named (point, value) entries and a
  default; \<open>num_entries\<close> counts the named entries, and \<open>interp\<close> applies the function.
\<close>

record func_interp =
  entries :: "(nat \<times> bool) list"
  else_value :: bool

definition num_entries :: "func_interp \<Rightarrow> nat" where
  "num_entries fi = length (entries fi)"

definition interp :: "func_interp \<Rightarrow> nat \<Rightarrow> bool" where
  "interp fi x = (case map_of (entries fi) x of Some v \<Rightarrow> v | None \<Rightarrow> else_value fi)"

section \<open>senslist.py\<close>

text \<open>
  The letters of \<open>slist\<close>: \<^verbatim>\<open>'?'\<close> is \<open>Unknown\<close>, \<^verbatim>\<open>'!'\<close> is \<open>Relevant\<close>
  (significant) and \<^verbatim>\<open>'x'\<close> is \<open>Irrelevant\<close>. Index 0 of the list is the least
  significant bit.
\<close>

datatype tag = Unknown | Relevant | Irrelevant

text \<open>\<^verbatim>\<open>__init__\<close>: \<^verbatim>\<open>self.slist = ['?']*width\<close>.\<close>

definition SensitivityList :: "nat \<Rightarrow> tag list" where
  "SensitivityList width = replicate width Unknown"

text \<open>\<^verbatim>\<open>__repr__\<close> of a sensitivity list: the letters, most significant first, in guillemets.\<close>

definition tag_letter :: "tag \<Rightarrow> char" where
  "tag_letter t = (case t of Unknown \<Rightarrow> CHR ''?'' | Relevant \<Rightarrow> CHR ''!'' | Irrelevant \<Rightarrow> CHR ''x'')"

definition repr :: "tag list \<Rightarrow> string" where
  "repr slist = CHR 0xAB # map tag_letter (rev slist) @ [CHR 0xBB]"

text \<open>\<^verbatim>\<open>bitsExcept(bv, j)\<close>: \<open>bv\<close> with its \<open>j\<close>-th bit removed, \<open>j = 0\<close> the least significant.\<close>

definition bitsExcept :: "'e bv \<Rightarrow> nat \<Rightarrow> error + 'e bv" where
  "bitsExcept bv j =
     (if j = 0 then Extract (int (bv_size bv) - 1) 1 bv
      else if int j = int (bv_size bv) - 1 then Extract (int (bv_size bv) - 2) 0 bv
      else bindE (Extract (int (bv_size bv) - 1) (int j + 1) bv) (\<lambda>hi.
           bindE (Extract (int j - 1) 0 bv) (\<lambda>lo.
           Inr (Concat hi lo))))"

text \<open>
  The solver of \<open>guess\<close> holds the facts \<^verbatim>\<open>P[x] == p[x]\<close> for each of the \<open>2 ^ width\<close>
  encodings \<open>x\<close>, so the array \<open>P\<close> is \<open>p\<close> on every encoding and the model uses \<open>p\<close> for it.
  \<open>probeIrrelevant\<close> adds the negation of its implication over the two \<open>width\<close>-bit variables
  \<open>v1\<close>, \<open>v2\<close> and asks whether the verdict is \<open>unsat\<close>. The query is quantifier-free over
  finitely many values, where z3 decides: the verdict is \<open>unsat\<close> exactly when no pair of
  \<open>width\<close>-bit values satisfies the added formula. \<open>check_unsat\<close> is that verdict; the
  valuation is the pair of the values of \<open>v1\<close> and \<open>v2\<close>.
\<close>

definition check_unsat :: "nat \<Rightarrow> (nat \<times> nat \<Rightarrow> bool) \<Rightarrow> bool" where
  "check_unsat width goal =
     (\<not> (\<exists>a \<in> set [0..<2 ^ width]. \<exists>b \<in> set [0..<2 ^ width]. goal (a, b)))"

definition probeIrrelevant :: "(nat \<Rightarrow> int) \<Rightarrow> tag list \<Rightarrow> nat \<Rightarrow> error + bool" where
  "probeIrrelevant p slist bitPosition =
     (let width = length slist in
      bindE (BitVec fst width) (\<lambda>v1.
      bindE (BitVec snd width) (\<lambda>v2.
      bindE (bitsExcept v1 bitPosition) (\<lambda>j1.
      bindE (bitsExcept v2 bitPosition) (\<lambda>j2.
      let thm = (\<lambda>e. p (bv_val v1 e) \<noteq> p (bv_val v2 e) \<longrightarrow> bv_val j1 e \<noteq> bv_val j2 e)
      in Inr (check_unsat width (\<lambda>e. \<not> thm e)))))))"

text \<open>
  One pass through the body of \<open>guess1\<close> up to its recursive call: it returns (\<open>Done\<close>), a
  probe raises (\<open>Raise\<close>), or the assignment \<^verbatim>\<open>self.slist[i] = 'x' if x else '!'\<close> runs
  (\<open>Write i v\<close>).
\<close>

datatype step = Done | Raise error | Write nat tag

definition guess1_step :: "(nat \<Rightarrow> int) \<Rightarrow> tag list \<Rightarrow> step" where
  "guess1_step p slist =
     (case list_index slist Unknown of
        None \<Rightarrow> Done
      | Some i \<Rightarrow>
          (case probeIrrelevant p slist i of
             Inl e \<Rightarrow> Raise e
           | Inr x \<Rightarrow> Write i (if x then Irrelevant else Relevant)))"

text \<open>
  Three facts for the termination of \<open>guess1\<close>: each assignment overwrites an unknown tag
  with a known one.
\<close>

lemma list_index_Some:
  "list_index xs a = Some i \<Longrightarrow> i < length xs \<and> xs ! i = a \<and> (\<forall>k<i. xs ! k \<noteq> a)"
proof (induction xs arbitrary: i)
  case Nil
  then show ?case by simp
next
  case (Cons x xs)
  show ?case
  proof (cases "x = a")
    case True
    with Cons.prems show ?thesis by simp
  next
    case False
    with Cons.prems obtain j where j: "list_index xs a = Some j" "i = Suc j" by auto
    from Cons.IH [OF j(1)] False j(2) show ?thesis
      by (auto simp: nth_Cons split: nat.splits)
  qed
qed

lemma count_list_update_less:
  "i < length xs \<Longrightarrow> xs ! i = a \<Longrightarrow> v \<noteq> a \<Longrightarrow> count_list (xs[i := v]) a < count_list xs a"
proof (induction xs arbitrary: i)
  case Nil
  then show ?case by simp
next
  case (Cons x xs)
  then show ?case by (cases i) auto
qed

lemma guess1_step_Write:
  "guess1_step p slist = Write i v \<Longrightarrow>
     i < length slist \<and> slist ! i = Unknown \<and> v \<noteq> Unknown"
  by (auto simp: guess1_step_def split: option.splits sum.splits if_splits dest: list_index_Some)

text \<open>\<open>guess1\<close> calls itself after each assignment; every call resolves one unknown tag.\<close>

function guess1 :: "(nat \<Rightarrow> int) \<Rightarrow> tag list \<Rightarrow> error + tag list" where
  "guess1 p slist =
     (case guess1_step p slist of
        Done \<Rightarrow> Inr slist
      | Raise e \<Rightarrow> Inl e
      | Write i v \<Rightarrow> guess1 p (slist[i := v]))"
  by pat_completeness auto
termination
proof (relation "measure (\<lambda>(p, slist). count_list slist Unknown)")
  show "wf (measure (\<lambda>(p, slist). count_list slist Unknown))" by simp
next
  fix p :: "nat \<Rightarrow> int" and slist i v
  assume "guess1_step p slist = Write i v"
  from guess1_step_Write [OF this]
  show "((p, slist[i := v]), (p, slist)) \<in> measure (\<lambda>(p, slist). count_list slist Unknown)"
    by (simp add: count_list_update_less)
qed

declare guess1.simps [simp del]

text \<open>
  \<open>guess\<close> creates the array \<open>P\<close> over \<^verbatim>\<open>BitVecSort(width)\<close>, states the facts and runs
  \<open>guess1\<close>. The list it works on is the object's own \<open>slist\<close>.
\<close>

definition guess :: "(nat \<Rightarrow> int) \<Rightarrow> tag list \<Rightarrow> error + tag list" where
  "guess p slist = bindE (BitVecSort (length slist)) (\<lambda>_. guess1 p slist)"

text \<open>
  The assignments \<open>guess1\<close> performs, in order: the list before the assignment, the position
  and the tag written.
\<close>

function guess1_writes :: "(nat \<Rightarrow> int) \<Rightarrow> tag list \<Rightarrow> (tag list \<times> nat \<times> tag) list" where
  "guess1_writes p slist =
     (case guess1_step p slist of
        Done \<Rightarrow> []
      | Raise e \<Rightarrow> []
      | Write i v \<Rightarrow> (slist, i, v) # guess1_writes p (slist[i := v]))"
  by pat_completeness auto
termination
proof (relation "measure (\<lambda>(p, slist). count_list slist Unknown)")
  show "wf (measure (\<lambda>(p, slist). count_list slist Unknown))" by simp
next
  fix p :: "nat \<Rightarrow> int" and slist i v
  assume "guess1_step p slist = Write i v"
  from guess1_step_Write [OF this]
  show "((p, slist[i := v]), (p, slist)) \<in> measure (\<lambda>(p, slist). count_list slist Unknown)"
    by (simp add: count_list_update_less)
qed

declare guess1_writes.simps [simp del]

text \<open>
  An element of a field spec is an integer count of free bits or a literal bit string.
  \<open>asFieldSpec\<close> maps every letter and reverses the list, so the spec is ordered from the
  most significant bit; an unknown letter raises.
\<close>

datatype fieldSpecElement = FreeBits nat | FixedBits string

definition slLetter_to_FieldSpecElement :: "nat \<times> tag \<Rightarrow> error + fieldSpecElement" where
  "slLetter_to_FieldSpecElement i_l =
     (case i_l of (index, letter) \<Rightarrow>
        if letter = Relevant then Inr (FreeBits 1)
        else if letter = Irrelevant then Inr (FixedBits ''0'')
        else Inl ErrorRaised)"

definition asFieldSpec :: "tag list \<Rightarrow> error + fieldSpecElement list" where
  "asFieldSpec slist =
     bindE (mapE slLetter_to_FieldSpecElement (enumerate 0 slist)) (\<lambda>l. Inr (rev l))"

text \<open>
  \<open>filterRelevantMembers\<close> pairs the reversed tags with the members of the list and keeps
  the members at relevant positions; \<open>significantSlice\<close> builds a \<^verbatim>\<open>Bits\<close> from them.
\<close>

definition filterRelevantMembers :: "tag list \<Rightarrow> 'a list \<Rightarrow> 'a list" where
  "filterRelevantMembers slist aList =
     (let z = zip (rev slist) aList;
          relevantElems = filter (\<lambda>rel_bit. fst rel_bit = Relevant) z
      in map snd relevantElems)"

definition significantSlice :: "tag list \<Rightarrow> bool list \<Rightarrow> bool list" where
  "significantSlice slist bits = filterRelevantMembers slist bits"

text \<open>\<^verbatim>\<open>entropy\<close>: the number of \<^verbatim>\<open>'!'\<close> entries.\<close>

definition entropy :: "tag list \<Rightarrow> nat" where
  "entropy slist = length (filter (\<lambda>x. x = Relevant) slist)"

definition isInsensitive :: "tag list \<Rightarrow> bool" where
  "isInsensitive slist = (entropy slist = 0)"

section \<open>bit_iter\<close>

text \<open>
  Modelled from the spec: \<^verbatim>\<open>bit_iter.encodingspec_to_iter\<close> is not among the sources.
  The specification describes it as the enumerator that, given a field spec (an ordered
  sequence of elements, each a literal fixed bit string or an integer count of free bits),
  produces the concrete encodings covering every combination of the free positions with
  the fixed positions held constant. The order of the combinations is not specified;
  the model counts upwards.
\<close>

fun encodingspec_to_iter :: "fieldSpecElement list \<Rightarrow> bool list list" where
  "encodingspec_to_iter [] = [[]]"
| "encodingspec_to_iter (FixedBits s # spec) =
     map (\<lambda>rest. map (\<lambda>c. c = CHR ''1'') s @ rest) (encodingspec_to_iter spec)"
| "encodingspec_to_iter (FreeBits n # spec) =
     concat (map (\<lambda>k. map (\<lambda>rest. bits_of n k @ rest) (encodingspec_to_iter spec)) [0..<2 ^ n])"

section \<open>vexshape.py\<close>

text \<open>
  \<open>Empty\<close> stands for an object of the class \<^verbatim>\<open>Empty\<close>, whose \<^verbatim>\<open>size()\<close> is 0;
  handing it to \<open>Extract\<close> raises, as any extraction from a term of width 0 does in the
  model.
\<close>

definition Empty :: "'e bv" where
  "Empty = (0, \<lambda>e. 0)"

text \<open>
  \<open>mingle\<close> walks the mask from its first (most significant) position: where the mask bit
  is set the next bit comes from the top of \<open>rightBV\<close>, otherwise from the top of \<open>leftBV\<close>.
\<close>

fun mingle :: "'e bv \<Rightarrow> 'e bv \<Rightarrow> bool list \<Rightarrow> error + 'e bv" where
  "mingle leftBV rightBV [] =
     (if bv_size leftBV + bv_size rightBV \<noteq> 0 then Inl WrongCountOfBits else Inr Empty)"
| "mingle leftBV rightBV (m # newMask) =
     (if bv_size leftBV + bv_size rightBV \<noteq> length (m # newMask) then Inl WrongCountOfBits
      else if m then
        (let sz = int (bv_size rightBV) in
         bindE (Extract (sz - 1) (sz - 1) rightBV) (\<lambda>leftmost.
         bindE (if sz > 1 then Extract (sz - 2) 0 rightBV else Inr Empty) (\<lambda>rest.
         bindE (mingle leftBV rest newMask) (\<lambda>tail.
         if bv_size tail = 0 then Inr leftmost else Inr (Concat leftmost tail)))))
      else
        (let sz = int (bv_size leftBV) in
         bindE (Extract (sz - 1) (sz - 1) leftBV) (\<lambda>leftmost.
         bindE (if sz > 1 then Extract (sz - 2) 0 leftBV else Inr Empty) (\<lambda>rest.
         bindE (mingle rest rightBV newMask) (\<lambda>tail.
         if bv_size tail = 0 then Inr leftmost else Inr (Concat leftmost tail))))))"

text \<open>The class \<open>OperandProjection\<close> and its \<^verbatim>\<open>__getitem__\<close>.\<close>

record OperandProjection =
  OPS :: "int list list"
  SHAPES :: "int list"
  correctShape :: int
  opIndex :: nat

definition getitem :: "OperandProjection \<Rightarrow> nat \<Rightarrow> error + int" where
  "getitem self k =
     bindE (py_nth (SHAPES self) k) (\<lambda>shape.
     if shape \<noteq> correctShape self then Inr (- 1)
     else bindE (py_nth (OPS self) k) (\<lambda>ops. py_nth ops (opIndex self)))"

text \<open>
  A model of the flock query interprets the four functions \<open>sh\<close>, \<open>f\<close>, \<open>t\<close> and \<open>s\<close>; the
  query is the composition law over \<open>lBits\<close> and \<open>rBits\<close> together with the ground facts
  \<^verbatim>\<open>sh(y,x) == shape\<close>. The solver itself is a parameter \<open>check\<close> of the model, from
  queries to verdicts. \<open>flock_solver_sound\<close> says what z3 guarantees of a \<open>sat\<close> verdict:
  the model it returns satisfies every assertion of the query.
\<close>

record flock_model =
  m_sh :: "nat \<Rightarrow> nat \<Rightarrow> int"
  m_f :: "int \<Rightarrow> bool \<Rightarrow> int"
  m_t :: "nat \<Rightarrow> int"
  m_s :: func_interp

record flock_query =
  q_lBits :: nat
  q_rBits :: nat
  q_facts :: "(nat \<times> nat \<times> int) list"

definition flock_satisfies :: "flock_model \<Rightarrow> flock_query \<Rightarrow> bool" where
  "flock_satisfies m q =
     ((\<forall>l \<in> set [0..<2 ^ q_lBits q]. \<forall>r \<in> set [0..<2 ^ q_rBits q].
         m_sh m l r = m_f m (m_t m l) (interp (m_s m) r)) \<and>
      (\<forall>gf \<in> set (q_facts q).
         case gf of (y, x, shape) \<Rightarrow> m_sh m y x = shape))"


text \<open>
  The body of the double loop of \<open>factorize_flock\<close> for one pair \<open>(iy, ix)\<close>, and the
  function up to \<^verbatim>\<open>solver.check()\<close>: the sorts, then the ground facts in loop order.
  \<open>shapeTags\<close> is the dictionary of \<open>phase1_shapes\<close>, keyed by significant-bit patterns.
\<close>

definition flock_fact :: "(bool list \<rightharpoonup> int) \<Rightarrow> bool list \<Rightarrow> nat \<Rightarrow> nat \<Rightarrow> nat \<times> nat
    \<Rightarrow> error + nat \<times> nat \<times> int" where
  "flock_fact shapeTags flocking lBits rBits iy_ix =
     (case iy_ix of (iy, ix) \<Rightarrow>
        let x = BitVecVal ix rBits; y = BitVecVal iy lBits in
        bindE (mingle y x flocking) (\<lambda>yx.
        bindE (as_long yx) (\<lambda>iyx.
        bindE (Bits_uint iyx (lBits + rBits)) (\<lambda>byx.
        bindE (lookup shapeTags byx) (\<lambda>shape.
        Inr (iy, ix, shape))))))"

definition flock_constraints :: "(bool list \<rightharpoonup> int) \<Rightarrow> bool list \<Rightarrow> error + flock_query" where
  "flock_constraints shapeTags flocking =
     (let lBits = count_list flocking False; rBits = count_list flocking True in
      bindE (BitVecSort lBits) (\<lambda>_.
      bindE (BitVecSort rBits) (\<lambda>_.
      bindE (mapE (flock_fact shapeTags flocking lBits rBits)
                  (List.product [0..<2 ^ lBits] [0..<2 ^ rBits])) (\<lambda>facts.
      Inr \<lparr>q_lBits = lBits, q_rBits = rBits, q_facts = facts\<rparr>))))"

text \<open>\<open>None\<close> is Python's \<^verbatim>\<open>None\<close>; \<open>Some classifier\<close> the returned interpretation.\<close>

definition factorize_flock :: "(bool list \<rightharpoonup> int) \<Rightarrow> (flock_query \<Rightarrow> flock_model check_result)
    \<Rightarrow> bool list \<Rightarrow> error + func_interp option" where
  "factorize_flock shapeTags check flocking =
     bindE (flock_constraints shapeTags flocking) (\<lambda>solver.
     case check solver of
       Sat m \<Rightarrow>
         (let classifier = m_s m in
          if num_entries classifier \<noteq> 1 then Inr None else Inr (Some classifier))
     | _ \<Rightarrow> Inr None)"


text \<open>
  The loop of \<open>find_flockings\<close> run to its end, as \<^verbatim>\<open>list(fl)\<close> in
  \<open>phase2_partitioning\<close> does. A \<^verbatim>\<open>FuncInterp\<close> object is truthy, so \<^verbatim>\<open>if f\<close> tests for
  \<^verbatim>\<open>None\<close>. \<open>flockings_tried\<close> lists the masks handed to \<open>factorize_flock\<close>, in order, up to
  and including the first one on which it raises.
\<close>

fun yield_flockings :: "(bool list \<rightharpoonup> int) \<Rightarrow> (flock_query \<Rightarrow> flock_model check_result)
    \<Rightarrow> bool list list \<Rightarrow> error + (bool list \<times> func_interp) list" where
  "yield_flockings shapeTags check [] = Inr []"
| "yield_flockings shapeTags check (flocking # candidates) =
     bindE (factorize_flock shapeTags check flocking) (\<lambda>f.
     bindE (yield_flockings shapeTags check candidates) (\<lambda>rest.
     Inr (case f of Some classifier \<Rightarrow> (flocking, classifier) # rest | None \<Rightarrow> rest)))"



text \<open>
  The fields of \<open>ShapeAnalysis\<close> that \<open>formulaFor\<close> reads: \<open>entropy\<close>, the tables \<open>P\<close> and
  \<open>OPS\<close>, the list \<open>section\<close> of specimen encodings and \<open>varBitPositions\<close>.
\<close>

record ShapeAnalysis =
  sa_entropy :: nat
  sa_P :: "int list"
  sa_OPS :: "int list list"
  sa_section :: "bool list list"
  sa_varBitPositions :: "nat list"

definition specimenEncodingOfShape :: "ShapeAnalysis \<Rightarrow> int \<Rightarrow> error + bool list" where
  "specimenEncodingOfShape self shapeN =
     bindE (py_index (sa_section self) shapeN) (\<lambda>thisShapeSpecimen.
     let aaa = rev thisShapeSpecimen in
     mapE (\<lambda>k. py_nth aaa k) (sa_varBitPositions self))"

text \<open>
  The affine-fit query holds \<^verbatim>\<open>Y[x] == y\<close> for every recorded point and the law
  \<^verbatim>\<open>ForAll(x, Y[x] == BV2Int(x)*a + b)\<close> over the \<open>width\<close>-bit values; a model interprets
  \<open>Y\<close>, \<open>a\<close> and \<open>b\<close>. As for the flock query the solver is a parameter \<open>check\<close>, from
  queries to verdicts.
\<close>

record affine_model =
  m_Y :: "nat \<Rightarrow> int"
  m_a :: int
  m_b :: int

record affine_query =
  q_width :: nat
  q_points :: "(nat \<times> int) list"

text \<open>
  Two calls of \<open>formulaFor\<close> go to the class \<open>SensitivityList\<close> of senslist.py. Line 322 is
  \<^verbatim>\<open>sl.guess(proj, self.P, shapeN)\<close>; the method is \<^verbatim>\<open>def guess(self, p)\<close>, so the
  call, with three arguments, raises TypeError before the body of \<open>guess\<close> runs, whatever
  the arguments are. Line 332 is \<^verbatim>\<open>opSensitivity.fiber(i)\<close>; the class has no attribute
  \<open>fiber\<close>, so the lookup raises AttributeError.
\<close>

definition guess_with_three_arguments ::
    "tag list \<Rightarrow> OperandProjection \<Rightarrow> int list \<Rightarrow> int \<Rightarrow> error + tag list" where
  "guess_with_three_arguments slist p P shapeN = Inl TypeError"

definition fiber :: "tag list \<Rightarrow> nat \<Rightarrow> error + nat list" where
  "fiber slist i = Inl AttributeError"

text \<open>
  \<^verbatim>\<open>next(filter(lambda j: self.P[j]==shapeN, f))\<close>: the first member of the fiber whose
  shape is \<open>shapeN\<close>, \<open>None\<close> for StopIteration. The filter is lazy, so \<open>P\<close> is read only up
  to that member. \<open>recorded_points\<close> is the loop over \<^verbatim>\<open>range(2**width)\<close>: the points
  \<open>(i, y)\<close> for which a fact \<^verbatim>\<open>Y[x] == y\<close> is added, in order.
\<close>

fun next_of_shape :: "int list \<Rightarrow> int \<Rightarrow> nat list \<Rightarrow> error + nat option" where
  "next_of_shape P shapeN [] = Inr None"
| "next_of_shape P shapeN (j # f) =
     bindE (py_nth P j) (\<lambda>shape.
     if shape = shapeN then Inr (Some j) else next_of_shape P shapeN f)"

fun recorded_points :: "ShapeAnalysis \<Rightarrow> OperandProjection \<Rightarrow> int \<Rightarrow> tag list
    \<Rightarrow> nat list \<Rightarrow> error + (nat \<times> int) list" where
  "recorded_points self proj shapeN opSensitivity [] = Inr []"
| "recorded_points self proj shapeN opSensitivity (i # todo) =
     bindE (fiber opSensitivity i) (\<lambda>f.
     bindE (next_of_shape (sa_P self) shapeN f) (\<lambda>nxt.
     bindE (case nxt of
              None \<Rightarrow> Inr []
            | Some s \<Rightarrow> bindE (getitem proj s) (\<lambda>y. Inr [(i, y)])) (\<lambda>added.
     bindE (recorded_points self proj shapeN opSensitivity todo) (\<lambda>rest.
     Inr (added @ rest)))))"

text \<open>
  \<open>formulaFor_fit\<close> is the body of \<open>formulaFor\<close> from line 323 on, with \<open>proj\<close> and
  \<open>opSensitivity\<close> as they stand after line 322: the shortcut for an insensitive operand,
  otherwise the recorded points, the query and its verdict. A verdict other than \<open>sat\<close>
  leads to \<^verbatim>\<open>raise Error()\<close>. \<open>formulaFor\<close> is the whole function.
\<close>

definition formulaFor_fit :: "ShapeAnalysis \<Rightarrow> OperandProjection \<Rightarrow> int
    \<Rightarrow> (affine_query \<Rightarrow> affine_model check_result) \<Rightarrow> tag list
    \<Rightarrow> error + string \<times> int \<times> int" where
  "formulaFor_fit self proj shapeN check opSensitivity =
     (if isInsensitive opSensitivity then
        bindE (specimenEncodingOfShape self shapeN) (\<lambda>enc.
        bindE (Bits_to_uint enc) (\<lambda>k.
        bindE (getitem proj k) (\<lambda>op.
        Inr (repr opSensitivity, 0, op))))
      else
        let width = entropy opSensitivity in
        bindE (BitVecSort width) (\<lambda>_.
        bindE (recorded_points self proj shapeN opSensitivity [0..<2 ^ width]) (\<lambda>points.
        case check \<lparr>q_width = width, q_points = points\<rparr> of
          Sat m \<Rightarrow> Inr (repr opSensitivity, m_a m, m_b m)
        | _ \<Rightarrow> Inl ErrorRaised)))"

definition formulaFor :: "ShapeAnalysis \<Rightarrow> nat \<Rightarrow> int
    \<Rightarrow> (affine_query \<Rightarrow> affine_model check_result) \<Rightarrow> error + string \<times> int \<times> int" where
  "formulaFor self opNum shapeN check =
     (let proj = \<lparr>OPS = sa_OPS self, SHAPES = sa_P self, correctShape = shapeN, opIndex = opNum\<rparr>;
          sl = SensitivityList (sa_entropy self)
      in bindE (guess_with_three_arguments sl proj (sa_P self) shapeN)
               (formulaFor_fit self proj shapeN check))"

section \<open>Sequencing and lists\<close>


lemma mapE_Inr: "(\<And>x. x \<in> set xs \<Longrightarrow> f x = Inr (g x)) \<Longrightarrow> mapE f xs = Inr (map g xs)"
  by (induction xs) (simp_all add: bindE_def)


lemma list_index_None: "list_index xs a = None \<longleftrightarrow> a \<notin> set xs"
  by (induction xs) auto

section \<open>Sensitivity against brute force\<close>

lemma guess1_Done: "guess1_step p slist = Done \<Longrightarrow> guess1 p slist = Inr slist"
  by (subst guess1.simps) simp

lemma guess1_Raise: "guess1_step p slist = Raise e \<Longrightarrow> guess1 p slist = Inl e"
  by (subst guess1.simps) simp

lemma guess1_Write: "guess1_step p slist = Write i v \<Longrightarrow> guess1 p slist = guess1 p (slist[i := v])"
  by (subst guess1.simps) simp

lemma Extract_Inr:
  assumes "0 \<le> low" and "low \<le> high" and "high < int w"
    and "n = nat (high - low + 1)" and "m = nat low"
  shows "Extract high low (w, g) = Inr (n, \<lambda>e. take_bit n (drop_bit m (g e)))"
  using assms
  by (simp add: Extract_def bv_size_def bv_val_def take_bit_eq_mod drop_bit_eq_div)

definition without_bit :: "nat \<Rightarrow> nat \<Rightarrow> nat \<Rightarrow> nat" where
  "without_bit w j a = take_bit (w - 1 - j) (drop_bit (Suc j) a) * 2 ^ j + take_bit j a"

lemma bitsExcept_Inr:
  assumes "2 \<le> w" and "j < w"
  shows "bitsExcept (w, g) j = Inr (w - 1, \<lambda>e. without_bit w j (g e))"
proof -
  consider "j = 0" | "j \<noteq> 0" "j = w - 1" | "j \<noteq> 0" "j \<noteq> w - 1" by blast
  then show ?thesis
  proof cases
    case 1
    have "Extract (int w - 1) 1 (w, g) = Inr (w - 1, \<lambda>e. take_bit (w - 1) (drop_bit 1 (g e)))"
      by (rule Extract_Inr) (use assms in auto)
    with 1 show ?thesis
      by (simp add: bitsExcept_def bv_size_def without_bit_def)
  next
    case 2
    have "Extract (int w - 2) 0 (w, g) = Inr (w - 1, \<lambda>e. take_bit (w - 1) (drop_bit 0 (g e)))"
      by (rule Extract_Inr) (use assms in auto)
    moreover have "int j = int w - 1" using 2 assms by auto
    ultimately show ?thesis using 2
      by (simp add: bitsExcept_def bv_size_def without_bit_def)
  next
    case 3
    have hi: "Extract (int w - 1) (int j + 1) (w, g)
        = Inr (w - 1 - j, \<lambda>e. take_bit (w - 1 - j) (drop_bit (Suc j) (g e)))"
      by (rule Extract_Inr) (use assms 3 in auto)
    have lo: "Extract (int j - 1) 0 (w, g) = Inr (j, \<lambda>e. take_bit j (drop_bit 0 (g e)))"
      by (rule Extract_Inr) (use assms 3 in auto)
    have n4: "int j \<noteq> int w - 1" using 3 assms by auto
    have n5: "w - 1 - j + j = w - 1" using assms by auto
    have "bitsExcept (w, g) j
        = Inr (Concat (w - 1 - j, \<lambda>e. take_bit (w - 1 - j) (drop_bit (Suc j) (g e)))
                      (j, \<lambda>e. take_bit j (drop_bit 0 (g e))))"
      using 3 n4 by (simp add: bitsExcept_def bv_size_def hi lo bindE_def)
    also have "Concat (w - 1 - j, \<lambda>e. take_bit (w - 1 - j) (drop_bit (Suc j) (g e)))
                      (j, \<lambda>e. take_bit j (drop_bit 0 (g e)))
        = (w - 1, \<lambda>e. without_bit w j (g e))"
      unfolding Concat_def bv_size_def bv_val_def fst_conv snd_conv n5 without_bit_def
      by simp
    finally show ?thesis .
  qed
qed

lemma bit_beyond_width:
  fixes a :: nat
  assumes "a < 2 ^ w" and "w \<le> k"
  shows "\<not> bit a k"
proof -
  have "take_bit w a = a" using assms(1) by (simp add: take_bit_nat_eq_self)
  then have "bit a k = bit (take_bit w a) k" by simp
  also have "\<dots> = False" using assms(2) by (simp add: bit_take_bit_iff)
  finally show ?thesis by simp
qed

definition agree_except :: "nat \<Rightarrow> nat \<Rightarrow> nat \<Rightarrow> nat \<Rightarrow> bool" where
  "agree_except w i a b = (\<forall>k<w. k \<noteq> i \<longrightarrow> bit a k = bit b k)"

lemma without_bit_eq_iff:
  assumes a: "a < 2 ^ w" and b: "b < 2 ^ w" and j: "j < w"
  shows "without_bit w j a = without_bit w j b \<longleftrightarrow> agree_except w j a b"
proof -
  have hi: "take_bit (w - 1 - j) (drop_bit (Suc j) c) = drop_bit (Suc j) c" if "c < 2 ^ w" for c :: nat
  proof (rule bit_eqI)
    fix n
    have "n < w - 1 - j" if "bit c (Suc j + n)"
      using bit_beyond_width [OF \<open>c < 2 ^ w\<close>, of "Suc j + n"] that by (cases "w \<le> Suc j + n") auto
    then show "bit (take_bit (w - 1 - j) (drop_bit (Suc j) c)) n = bit (drop_bit (Suc j) c) n"
      by (auto simp: bit_take_bit_iff bit_drop_bit_eq)
  qed
  note hi_a = hi [OF a] and hi_b = hi [OF b]
  have split: "x * 2 ^ j + take_bit j a = y * 2 ^ j + take_bit j b
      \<longleftrightarrow> x = y \<and> take_bit j a = take_bit j b" for x y :: nat
  proof
    assume eq: "x * 2 ^ j + take_bit j a = y * 2 ^ j + take_bit j b"
    have la: "take_bit j a < 2 ^ j" and lb: "take_bit j b < 2 ^ j" by simp_all
    from eq have "(x * 2 ^ j + take_bit j a) div 2 ^ j = (y * 2 ^ j + take_bit j b) div 2 ^ j" by simp
    with la lb have "x = y" by simp
    with eq show "x = y \<and> take_bit j a = take_bit j b" by simp
  qed simp
  have "without_bit w j a = without_bit w j b
      \<longleftrightarrow> drop_bit (Suc j) a = drop_bit (Suc j) b \<and> take_bit j a = take_bit j b"
    unfolding without_bit_def hi_a hi_b by (rule split)
  also have "\<dots> \<longleftrightarrow> (\<forall>k. k \<noteq> j \<longrightarrow> bit a k = bit b k)"
  proof
    assume h: "drop_bit (Suc j) a = drop_bit (Suc j) b \<and> take_bit j a = take_bit j b"
    show "\<forall>k. k \<noteq> j \<longrightarrow> bit a k = bit b k"
    proof (intro allI impI)
      fix k assume "k \<noteq> j"
      then consider "k < j" | "j < k" by linarith
      then show "bit a k = bit b k"
      proof cases
        case 1
        from h have "bit (take_bit j a) k = bit (take_bit j b) k" by simp
        with 1 show ?thesis by (simp add: bit_take_bit_iff)
      next
        case 2
        from h have "bit (drop_bit (Suc j) a) (k - Suc j) = bit (drop_bit (Suc j) b) (k - Suc j)" by simp
        with 2 show ?thesis by (simp add: bit_drop_bit_eq)
      qed
    qed
  next
    assume h: "\<forall>k. k \<noteq> j \<longrightarrow> bit a k = bit b k"
    have "drop_bit (Suc j) a = drop_bit (Suc j) b"
      by (rule bit_eqI) (use h in \<open>simp add: bit_drop_bit_eq\<close>)
    moreover have "take_bit j a = take_bit j b"
      by (rule bit_eqI) (use h in \<open>auto simp add: bit_take_bit_iff\<close>)
    ultimately show "drop_bit (Suc j) a = drop_bit (Suc j) b \<and> take_bit j a = take_bit j b" ..
  qed
  also have "\<dots> \<longleftrightarrow> agree_except w j a b"
  proof
    assume "\<forall>k. k \<noteq> j \<longrightarrow> bit a k = bit b k"
    then show "agree_except w j a b" by (simp add: agree_except_def)
  next
    assume h: "agree_except w j a b"
    show "\<forall>k. k \<noteq> j \<longrightarrow> bit a k = bit b k"
    proof (intro allI impI)
      fix k assume kj: "k \<noteq> j"
      show "bit a k = bit b k"
      proof (cases "k < w")
        case True
        with h kj show ?thesis by (simp add: agree_except_def)
      next
        case False
        then have "w \<le> k" by simp
        from bit_beyond_width [OF a this] bit_beyond_width [OF b this] show ?thesis by simp
      qed
    qed
  qed
  finally show ?thesis .
qed

text \<open>
  The ground truth in the words of the specification: bit \<open>i\<close> is irrelevant when every two
  \<open>W\<close>-bit encodings that agree on all bits except possibly bit \<open>i\<close> have the same shape.
\<close>

definition ground_truth_irrelevant :: "(nat \<Rightarrow> int) \<Rightarrow> nat \<Rightarrow> nat \<Rightarrow> bool" where
  "ground_truth_irrelevant p W i =
     (\<forall>a<2 ^ W. \<forall>b<2 ^ W. agree_except W i a b \<longrightarrow> p a = p b)"

lemma probeIrrelevant_Inr:
  assumes "2 \<le> length slist" and "i < length slist"
  shows "probeIrrelevant p slist i = Inr (ground_truth_irrelevant p (length slist) i)"
proof -
  let ?w = "length slist"
  have w0: "?w \<noteq> 0" using assms by auto
  have j1: "bitsExcept (?w, fst) i = Inr (?w - 1, \<lambda>e. without_bit ?w i (fst e))"
    by (rule bitsExcept_Inr [OF assms])
  have j2: "bitsExcept (?w, snd) i = Inr (?w - 1, \<lambda>e. without_bit ?w i (snd e))"
    by (rule bitsExcept_Inr [OF assms])
  have "probeIrrelevant p slist i
      = Inr (check_unsat ?w (\<lambda>e. \<not> (p (fst e) \<noteq> p (snd e)
              \<longrightarrow> without_bit ?w i (fst e) \<noteq> without_bit ?w i (snd e))))"
    using w0 by (simp add: probeIrrelevant_def Let_def BitVec_def BitVecSort_def bindE_def j1 j2 bv_val_def)
  also have "check_unsat ?w (\<lambda>e. \<not> (p (fst e) \<noteq> p (snd e)
              \<longrightarrow> without_bit ?w i (fst e) \<noteq> without_bit ?w i (snd e)))
      = ground_truth_irrelevant p ?w i"
  proof -
    have "(\<exists>a\<in>set [0..<2 ^ ?w]. \<exists>b\<in>set [0..<2 ^ ?w].
             \<not> (p (fst (a, b)) \<noteq> p (snd (a, b))
                \<longrightarrow> without_bit ?w i (fst (a, b)) \<noteq> without_bit ?w i (snd (a, b))))
        \<longleftrightarrow> (\<exists>a<2 ^ ?w. \<exists>b<2 ^ ?w. agree_except ?w i a b \<and> p a \<noteq> p b)"
      (is "?L \<longleftrightarrow> ?R")
    proof
      assume ?L
      then obtain a b where ab: "a < 2 ^ ?w" "b < 2 ^ ?w" "p a \<noteq> p b"
          "without_bit ?w i a = without_bit ?w i b"
        by auto
      from without_bit_eq_iff [OF ab(1,2) assms(2)] ab(4) have "agree_except ?w i a b" by simp
      with ab show ?R by blast
    next
      assume ?R
      then obtain a b where ab: "a < 2 ^ ?w" "b < 2 ^ ?w" "p a \<noteq> p b" "agree_except ?w i a b"
        by blast
      from without_bit_eq_iff [OF ab(1,2) assms(2)] ab(4)
      have "without_bit ?w i a = without_bit ?w i b" by simp
      with ab(1,2,3) have "\<not> (p (fst (a, b)) \<noteq> p (snd (a, b))
                \<longrightarrow> without_bit ?w i (fst (a, b)) \<noteq> without_bit ?w i (snd (a, b)))"
        and "a \<in> set [0..<2 ^ ?w]" and "b \<in> set [0..<2 ^ ?w]"
        by simp_all
      then show ?L by blast
    qed
    then show ?thesis
      unfolding check_unsat_def ground_truth_irrelevant_def by blast
  qed
  finally show ?thesis .
qed

lemma guess1_resolves:
  "2 \<le> length slist \<Longrightarrow>
     \<exists>sl'. guess1 p slist = Inr sl' \<and> length sl' = length slist \<and>
       (\<forall>i<length slist.
          sl' ! i = (if slist ! i = Unknown
                     then (if ground_truth_irrelevant p (length slist) i then Irrelevant else Relevant)
                     else slist ! i))"
proof (induction p slist rule: guess1.induct)
  case (1 p slist)
  show ?case
  proof (cases "guess1_step p slist")
    case Done
    then have "Unknown \<notin> set slist"
      by (auto simp: guess1_step_def list_index_None [symmetric] split: option.splits sum.splits)
    then have "\<forall>i<length slist. slist ! i \<noteq> Unknown" by (metis nth_mem)
    with guess1_Done [OF Done] show ?thesis by simp
  next
    case (Raise e)
    then obtain i where i: "list_index slist Unknown = Some i" and "probeIrrelevant p slist i = Inl e"
      by (auto simp: guess1_step_def split: option.splits sum.splits)
    moreover from list_index_Some [OF i] have "i < length slist" by simp
    ultimately show ?thesis using probeIrrelevant_Inr [OF "1.prems", of i p] by simp
  next
    case (Write i v)
    from guess1_step_Write [OF Write] have i: "i < length slist" "slist ! i = Unknown" by simp_all
    from Write obtain x where "probeIrrelevant p slist i = Inr x"
        and v: "v = (if x then Irrelevant else Relevant)"
      by (auto simp: guess1_step_def split: option.splits sum.splits)
    with probeIrrelevant_Inr [OF "1.prems" i(1), of p]
    have v': "v = (if ground_truth_irrelevant p (length slist) i then Irrelevant else Relevant)" by simp
    from "1.IH" [OF Write] "1.prems" obtain sl' where
      sl': "guess1 p (slist[i := v]) = Inr sl'" "length sl' = length slist"
      "\<forall>k<length slist. sl' ! k = (if slist[i := v] ! k = Unknown
                     then (if ground_truth_irrelevant p (length slist) k then Irrelevant else Relevant)
                     else slist[i := v] ! k)"
      by auto
    have "guess1 p slist = Inr sl'" using guess1_Write [OF Write] sl'(1) by simp
    moreover have "sl' ! k = (if slist ! k = Unknown
                     then (if ground_truth_irrelevant p (length slist) k then Irrelevant else Relevant)
                     else slist ! k)" if "k < length slist" for k
      using sl'(3) that i v' by (cases "k = i") (auto simp: nth_list_update)
    ultimately show ?thesis using sl'(2) by auto
  qed
qed

text \<open>
  Scenario A of the specification: width 2 with \<open>P(00) = P(01) = 0\<close> and
  \<open>P(10) = P(11) = 1\<close>. The second table is a one-bit oracle with \<open>P(0) = 0\<close> and
  \<open>P(1) = 1\<close>.
\<close>

definition scenario_A :: "nat \<Rightarrow> int" where
  "scenario_A k = (if k < 2 then 0 else 1)"

definition one_bit_oracle :: "nat \<Rightarrow> int" where
  "one_bit_oracle k = int k"

lemma guess_scenario_A: "guess scenario_A (SensitivityList 2) = Inr [Irrelevant, Relevant]"
  by code_simp

text \<open>
  From width 2 on \<open>guess\<close> agrees with the ground truth: for every total function \<open>p\<close> on
  the \<open>W\<close>-bit encodings it returns a list of width \<open>W\<close> that tags position \<open>i\<close> as
  irrelevant if and only if every pair of encodings that agree on all bits except possibly
  bit \<open>i\<close> has the same shape, and as relevant otherwise.
\<close>

theorem guess_matches_ground_truth:
  assumes "2 \<le> W"
  shows "\<exists>sl. guess p (SensitivityList W) = Inr sl \<and> length sl = W \<and>
           (\<forall>i<W. (sl ! i = Irrelevant \<longleftrightarrow> ground_truth_irrelevant p W i) \<and>
                   (sl ! i = Relevant \<longleftrightarrow> \<not> ground_truth_irrelevant p W i))"
proof -
  have len: "length (SensitivityList W) = W" by (simp add: SensitivityList_def)
  with assms have "2 \<le> length (SensitivityList W)" by simp
  from guess1_resolves [OF this, of p] len obtain sl where
    sl: "guess1 p (SensitivityList W) = Inr sl" "length sl = W"
    "\<forall>i<W. sl ! i = (if SensitivityList W ! i = Unknown
                     then (if ground_truth_irrelevant p W i then Irrelevant else Relevant)
                     else SensitivityList W ! i)"
    by auto
  have "guess p (SensitivityList W) = Inr sl"
    using assms sl(1) len by (simp add: guess_def BitVecSort_def bindE_def)
  moreover have "sl ! i = (if ground_truth_irrelevant p W i then Irrelevant else Relevant)"
    if "i < W" for i
    using sl(3) that by (simp add: SensitivityList_def)
  ultimately show ?thesis using sl(2) by auto
qed

theorem guess_matches_ground_truth_witness:
  "(2::nat) \<le> 2 \<and>
   guess scenario_A (SensitivityList 2) = Inr [Irrelevant, Relevant] \<and>
   ground_truth_irrelevant scenario_A 2 0 \<and>
   \<not> ground_truth_irrelevant scenario_A 2 1"
proof -
  have h: "(2::nat) \<le> 2" by simp
  from guess_matches_ground_truth [OF h, of scenario_A] obtain sl where
    sl: "guess scenario_A (SensitivityList 2) = Inr sl"
    and tags: "\<forall>i<2. (sl ! i = Irrelevant \<longleftrightarrow> ground_truth_irrelevant scenario_A 2 i) \<and>
                      (sl ! i = Relevant \<longleftrightarrow> \<not> ground_truth_irrelevant scenario_A 2 i)"
    by blast
  from sl guess_scenario_A have eq: "sl = [Irrelevant, Relevant]" by simp
  from tags have "sl ! 0 = Irrelevant \<longleftrightarrow> ground_truth_irrelevant scenario_A 2 0"
    and "sl ! 1 = Relevant \<longleftrightarrow> \<not> ground_truth_irrelevant scenario_A 2 1"
    by simp_all
  with eq have "ground_truth_irrelevant scenario_A 2 0" and "\<not> ground_truth_irrelevant scenario_A 2 1"
    by simp_all
  with guess_scenario_A show ?thesis by simp
qed

text \<open>
  At width 1 the ground truth is as defined as at any other width: the only bit of the
  one-bit oracle is relevant.
\<close>

lemma one_bit_oracle_relevant: "\<not> ground_truth_irrelevant one_bit_oracle 1 0"
proof
  assume "ground_truth_irrelevant one_bit_oracle 1 0"
  then have "agree_except 1 0 0 1 \<longrightarrow> one_bit_oracle 0 = one_bit_oracle 1"
    by (simp add: ground_truth_irrelevant_def)
  then show False by (simp add: agree_except_def one_bit_oracle_def)
qed

lemma probe_width_one: "probeIrrelevant p [Unknown] 0 = Inl Z3Exception"
  by (simp add: probeIrrelevant_def BitVec_def BitVecSort_def bitsExcept_def Extract_def
      bv_size_def bindE_def)

text \<open>
  Claim C1. For every total function \<open>P\<close> on the \<open>W\<close>-bit encodings and every bit position
  \<open>i\<close>, the list produced by \<open>guess\<close> is to tag position \<open>i\<close> as irrelevant if and only if
  every pair of encodings that agree on all bits except possibly bit \<open>i\<close> has the same
  shape, and as relevant otherwise. At width 1 the code does not do this: for every table,
  \<open>guess\<close> probes position 0, \<open>bitsExcept\<close> takes its branch \<open>j = 0\<close> and asks for
  \<^verbatim>\<open>Extract(0, 1, v1)\<close>, which z3 refuses, and \<open>guess\<close> raises without producing a list.
\<close>

theorem guess_width_one_raises:
  "guess p (SensitivityList 1) = Inl Z3Exception"
proof -
  have "guess1_step p [Unknown] = Raise Z3Exception"
    by (simp add: guess1_step_def probe_width_one)
  then have "guess1 p [Unknown] = Inl Z3Exception" by (rule guess1_Raise)
  then show ?thesis
    by (simp add: guess_def SensitivityList_def BitVecSort_def bindE_def)
qed

section \<open>Soundness of an accepted flock\<close>



lemma factorize_flock_Inr:
  assumes "flock_constraints shapeTags flocking = Inr q"
  shows "factorize_flock shapeTags check flocking =
           (case check q of
              Sat m \<Rightarrow> if num_entries (m_s m) \<noteq> 1 then Inr None else Inr (Some (m_s m))
            | Unsat \<Rightarrow> Inr None
            | Unknown_result \<Rightarrow> Inr None)"
  using assms by (simp add: factorize_flock_def bindE_def Let_def split: check_result.splits)

lemma factorize_flock_Inl:
  assumes "flock_constraints shapeTags flocking = Inl e"
  shows "factorize_flock shapeTags check flocking = Inl e"
  using assms by (simp add: factorize_flock_def bindE_def)

lemma factorize_flock_Some:
  "factorize_flock shapeTags check flocking = Inr (Some c) \<longleftrightarrow>
     (\<exists>q m. flock_constraints shapeTags flocking = Inr q \<and> check q = Sat m \<and>
            num_entries (m_s m) = 1 \<and> c = m_s m)"
proof (cases "flock_constraints shapeTags flocking")
  case (Inl e)
  with factorize_flock_Inl [OF Inl, of check] show ?thesis by simp
next
  case (Inr q)
  show ?thesis
    unfolding factorize_flock_Inr [OF Inr] Inr
    by (cases "check q") auto
qed

lemma factorize_flock_None:
  "factorize_flock shapeTags check flocking = Inr None \<longleftrightarrow>
     (\<exists>q. flock_constraints shapeTags flocking = Inr q \<and>
          \<not> (\<exists>m. check q = Sat m \<and> num_entries (m_s m) = 1))"
proof (cases "flock_constraints shapeTags flocking")
  case (Inl e)
  with factorize_flock_Inl [OF Inl, of check] show ?thesis by simp
next
  case (Inr q)
  show ?thesis
    unfolding factorize_flock_Inr [OF Inr] Inr
    by (cases "check q") auto
qed

text \<open>
  An example with two relevant bits, the shape being the low bit: the mask \<open>[False, True]\<close>
  puts the high bit in the left group and the low bit in the right group. \<open>example_check\<close>
  answers \<open>sat\<close> with \<open>example_model\<close> where that is a model of the query; \<open>degenerate_check\<close>
  answers with a classifier of two named entries.
\<close>

definition example_shapeTags :: "bool list \<rightharpoonup> int" where
  "example_shapeTags =
     map_of [([False, False], 0), ([False, True], 1), ([True, False], 0), ([True, True], 1)]"

definition example_classifier :: func_interp where
  "example_classifier = \<lparr>entries = [(1, True)], else_value = False\<rparr>"

definition example_model :: flock_model where
  "example_model =
     \<lparr>m_sh = (\<lambda>l r. int r), m_f = (\<lambda>c b. if b then 1 else 0), m_t = (\<lambda>l. 0),
      m_s = example_classifier\<rparr>"

definition example_check :: "flock_query \<Rightarrow> flock_model check_result" where
  "example_check q = (if flock_satisfies example_model q then Sat example_model else Unsat)"

definition degenerate_check :: "flock_query \<Rightarrow> flock_model check_result" where
  "degenerate_check q =
     Sat (example_model\<lparr>m_s := \<lparr>entries = [(0, False), (1, True)], else_value = False\<rparr>\<rparr>)"

definition example_query :: flock_query where
  "example_query =
     \<lparr>q_lBits = 1, q_rBits = 1, q_facts = [(0, 0, 0), (0, 1, 1), (1, 0, 0), (1, 1, 1)]\<rparr>"

lemma example_constraints:
  "flock_constraints example_shapeTags [False, True] = Inr example_query"
  by code_simp

lemma example_accepts:
  "factorize_flock example_shapeTags example_check [False, True] = Inr (Some example_classifier)"
  by code_simp


lemma degenerate_rejected:
  "factorize_flock example_shapeTags degenerate_check [False, True] = Inr None"
  by code_simp



section \<open>The candidates of the flock search\<close>

lemma length_bits_of [simp]: "length (bits_of n k) = n"
  by (induction n) simp_all
















section \<open>Rejected and accepted candidates\<close>

text \<open>
  Claim C4. Once the query is built, \<open>factorize_flock\<close> returns \<open>None\<close> whenever the
  verdict is not \<open>sat\<close>, and whenever it is \<open>sat\<close> but the interpretation of \<open>s\<close> has a
  number of named entries other than one; it returns the classifier exactly when the verdict
  is \<open>sat\<close> and the interpretation of \<open>s\<close> has exactly one named entry. After a \<open>None\<close> the
  search goes on with the next mask and yields nothing for this one.
\<close>

theorem factorize_flock_verdicts:
  assumes q: "flock_constraints shapeTags flocking = Inr q"
  shows "((\<forall>m. check q \<noteq> Sat m) \<longrightarrow> factorize_flock shapeTags check flocking = Inr None) \<and>
         (\<forall>m. check q = Sat m \<and> num_entries (m_s m) \<noteq> 1 \<longrightarrow>
               factorize_flock shapeTags check flocking = Inr None) \<and>
         (\<forall>c. factorize_flock shapeTags check flocking = Inr (Some c) \<longleftrightarrow>
               (\<exists>m. check q = Sat m \<and> num_entries (m_s m) = 1 \<and> c = m_s m)) \<and>
         (factorize_flock shapeTags check flocking = Inr None \<longrightarrow>
            yield_flockings shapeTags check (flocking # candidates)
              = yield_flockings shapeTags check candidates)"
proof (intro conjI allI impI)
  assume "\<forall>m. check q \<noteq> Sat m"
  with q show "factorize_flock shapeTags check flocking = Inr None"
    by (auto simp: factorize_flock_None)
next
  fix m assume "check q = Sat m \<and> num_entries (m_s m) \<noteq> 1"
  with q show "factorize_flock shapeTags check flocking = Inr None"
    by (auto simp: factorize_flock_None)
next
  fix c
  from q show "factorize_flock shapeTags check flocking = Inr (Some c) \<longleftrightarrow>
               (\<exists>m. check q = Sat m \<and> num_entries (m_s m) = 1 \<and> c = m_s m)"
    by (auto simp: factorize_flock_Some)
next
  assume "factorize_flock shapeTags check flocking = Inr None"
  then show "yield_flockings shapeTags check (flocking # candidates)
              = yield_flockings shapeTags check candidates"
    by (cases "yield_flockings shapeTags check candidates") (simp_all add: bindE_def)
qed

definition unsat_flock_check :: "flock_query \<Rightarrow> flock_model check_result" where
  "unsat_flock_check q = Unsat"

theorem factorize_flock_verdicts_witness:
  "flock_constraints example_shapeTags [False, True] = Inr example_query \<and>
   unsat_flock_check example_query = Unsat \<and>
   factorize_flock example_shapeTags unsat_flock_check [False, True] = Inr None \<and>
   factorize_flock example_shapeTags degenerate_check [False, True] = Inr None \<and>
   yield_flockings example_shapeTags degenerate_check [[False, True], [True, False]]
     = yield_flockings example_shapeTags degenerate_check [[True, False]] \<and>
   factorize_flock example_shapeTags example_check [False, True] = Inr (Some example_classifier)"
proof -
  have u: "\<forall>m. unsat_flock_check example_query \<noteq> Sat m" by (simp add: unsat_flock_check_def)
  from factorize_flock_verdicts [OF example_constraints, of unsat_flock_check] u
  have "factorize_flock example_shapeTags unsat_flock_check [False, True] = Inr None" by blast
  moreover from factorize_flock_verdicts [OF example_constraints, of degenerate_check "[[True, False]]"]
    degenerate_rejected
  have "yield_flockings example_shapeTags degenerate_check [[False, True], [True, False]]
     = yield_flockings example_shapeTags degenerate_check [[True, False]]" by blast
  ultimately show ?thesis
    using example_constraints degenerate_rejected example_accepts
    by (simp add: unsat_flock_check_def)
qed

section \<open>The operand formula\<close>

text \<open>
  Past line 322 the fit would still not be reached for a sensitive operand: the loop over
  the points is not empty and its body looks up \<open>fiber\<close> before it records anything.
\<close>

lemma recorded_points_raise:
  "todo \<noteq> [] \<Longrightarrow> recorded_points self proj shapeN opSensitivity todo = Inl AttributeError"
  by (cases todo) (simp_all add: fiber_def bindE_def)

lemma formulaFor_fit_sensitive:
  assumes "\<not> isInsensitive opSensitivity"
  shows "formulaFor_fit self proj shapeN check opSensitivity = Inl AttributeError"
proof -
  from assms have e: "entropy opSensitivity \<noteq> 0" by (simp add: isInsensitive_def)
  have "[0..<2 ^ entropy opSensitivity] \<noteq> []" by simp
  then have "recorded_points self proj shapeN opSensitivity [0..<2 ^ entropy opSensitivity]
      = Inl AttributeError"
    by (rule recorded_points_raise)
  with assms e show ?thesis
    by (simp add: formulaFor_fit_def Let_def BitVecSort_def bindE_def)
qed

text \<open>
  Claim C5. When the affine-fit query is unsatisfiable, the failure is to be reported to
  the caller as "no formula found", so that the caller can go on. The code does not do
  this: for every analysis state, operand, shape and solver, \<open>formulaFor\<close> raises TypeError
  at its call of \<open>guess\<close>, before any query is built; no verdict is ever reported.
\<close>

theorem formulaFor_raises_TypeError:
  "formulaFor self opNum shapeN check = Inl TypeError"
  by (simp add: formulaFor_def guess_with_three_arguments_def bindE_def Let_def)


section \<open>Entropy\<close>

lemma entropy_count: "entropy slist = count_list slist Relevant"
  by (induction slist) (simp_all add: entropy_def)

lemma resolved_counts:
  "Unknown \<notin> set slist \<Longrightarrow>
     count_list slist Relevant + count_list slist Irrelevant = length slist"
proof (induction slist)
  case Nil
  show ?case by simp
next
  case (Cons t ts)
  then show ?case by (cases t) simp_all
qed

text \<open>
  Claim C7. For every sensitivity list, \<open>entropy\<close> is the number of relevant tags;
  \<open>isInsensitive\<close> holds exactly when the entropy is zero; and when no tag is unknown the
  entropy is the width minus the number of irrelevant tags.
\<close>

theorem entropy_characterisation:
  "entropy slist = count_list slist Relevant \<and>
   (isInsensitive slist \<longleftrightarrow> entropy slist = 0) \<and>
   (Unknown \<notin> set slist \<longrightarrow> entropy slist = length slist - count_list slist Irrelevant)"
proof (intro conjI impI)
  show "entropy slist = count_list slist Relevant" by (rule entropy_count)
  show "isInsensitive slist \<longleftrightarrow> entropy slist = 0" by (simp add: isInsensitive_def)
next
  assume "Unknown \<notin> set slist"
  from resolved_counts [OF this] show "entropy slist = length slist - count_list slist Irrelevant"
    by (simp add: entropy_count)
qed

theorem entropy_characterisation_witness:
  "Unknown \<notin> set [Irrelevant, Relevant, Relevant] \<and>
   entropy [Irrelevant, Relevant, Relevant] = 2 \<and>
   entropy [Irrelevant, Relevant, Relevant]
     = length [Irrelevant, Relevant, Relevant] - count_list [Irrelevant, Relevant, Relevant] Irrelevant \<and>
   \<not> isInsensitive [Irrelevant, Relevant, Relevant]"
  using entropy_characterisation [of "[Irrelevant, Relevant, Relevant]"]
  by (simp add: entropy_def)

section \<open>Tags are written once\<close>

lemma guess1_writes_Done: "guess1_step p slist = Done \<Longrightarrow> guess1_writes p slist = []"
  by (subst guess1_writes.simps) simp

lemma guess1_writes_Raise: "guess1_step p slist = Raise e \<Longrightarrow> guess1_writes p slist = []"
  by (subst guess1_writes.simps) simp

lemma guess1_writes_Write:
  "guess1_step p slist = Write i v \<Longrightarrow>
     guess1_writes p slist = (slist, i, v) # guess1_writes p (slist[i := v])"
  by (subst guess1_writes.simps) simp

definition write_ok :: "tag list \<Rightarrow> tag list \<times> nat \<times> tag \<Rightarrow> bool" where
  "write_ok slist w =
     (case w of (cur, i, v) \<Rightarrow>
        length cur = length slist \<and> i < length cur \<and> cur ! i = Unknown \<and>
        slist ! i = Unknown \<and> v \<noteq> Unknown)"

definition written :: "(tag list \<times> nat \<times> tag) list \<Rightarrow> nat list" where
  "written ws = map (\<lambda>w. fst (snd w)) ws"

lemma guess1_writes_ok:
  "list_all (write_ok slist) (guess1_writes p slist) \<and> distinct (written (guess1_writes p slist))"
proof (induction p slist rule: guess1_writes.induct)
  case (1 p slist)
  show ?case
  proof (cases "guess1_step p slist")
    case Done
    from guess1_writes_Done [OF this] show ?thesis by (simp add: written_def)
  next
    case (Raise e)
    from guess1_writes_Raise [OF this] show ?thesis by (simp add: written_def)
  next
    case (Write i v)
    from guess1_step_Write [OF Write]
    have i: "i < length slist" "slist ! i = Unknown" "v \<noteq> Unknown" by simp_all
    let ?rest = "guess1_writes p (slist[i := v])"
    from "1.IH" [OF Write]
    have IH: "list_all (write_ok (slist[i := v])) ?rest" "distinct (written ?rest)" by simp_all
    have step: "write_ok slist w \<and> fst (snd w) \<noteq> i" if "write_ok (slist[i := v]) w" for w
    proof -
      obtain cur k u where w: "w = (cur, k, u)" by (cases w) auto
      from that w have k: "length cur = length slist" "k < length cur" "cur ! k = Unknown"
          "slist[i := v] ! k = Unknown" "u \<noteq> Unknown"
        by (simp_all add: write_ok_def)
      from k(1,2,4) i(3) have "k \<noteq> i" by (auto simp: nth_list_update)
      with k w show ?thesis by (simp add: write_ok_def)
    qed
    from IH(1) step have all: "list_all (write_ok slist) ?rest"
      and fresh: "i \<notin> set (written ?rest)"
      by (auto simp: list_all_iff written_def)
    have "write_ok slist (slist, i, v)" using i by (simp add: write_ok_def)
    with all fresh IH(2) guess1_writes_Write [OF Write] show ?thesis by (simp add: written_def)
  qed
qed

lemma guess1_frame:
  "guess1 p slist = Inr sl' \<Longrightarrow>
     length sl' = length slist \<and>
     (\<forall>k<length slist. slist ! k \<noteq> Unknown \<longrightarrow> sl' ! k = slist ! k) \<and>
     Unknown \<notin> set sl' \<and>
     sl' = fold (\<lambda>w l. l[fst (snd w) := snd (snd w)]) (guess1_writes p slist) slist"
proof (induction p slist rule: guess1.induct)
  case (1 p slist)
  show ?case
  proof (cases "guess1_step p slist")
    case Done
    then have "Unknown \<notin> set slist"
      by (auto simp: guess1_step_def list_index_None [symmetric] split: option.splits sum.splits)
    with guess1_Done [OF Done] guess1_writes_Done [OF Done] "1.prems" show ?thesis by simp
  next
    case (Raise e)
    with guess1_Raise [OF Raise] "1.prems" show ?thesis by simp
  next
    case (Write i v)
    from guess1_step_Write [OF Write]
    have i: "i < length slist" "slist ! i = Unknown" "v \<noteq> Unknown" by simp_all
    from guess1_Write [OF Write] "1.prems" have "guess1 p (slist[i := v]) = Inr sl'" by simp
    note ih = "1.IH" [OF Write this]
    have IH1: "length sl' = length slist"
      using ih [THEN conjunct1] by simp
    have IH2: "\<forall>k<length slist. slist[i := v] ! k \<noteq> Unknown \<longrightarrow> sl' ! k = slist[i := v] ! k"
      using ih [THEN conjunct2, THEN conjunct1] by simp
    have IH3: "Unknown \<notin> set sl'"
      by (rule ih [THEN conjunct2, THEN conjunct2, THEN conjunct1])
    have IH4: "sl' = fold (\<lambda>w l. l[fst (snd w) := snd (snd w)])
                       (guess1_writes p (slist[i := v])) (slist[i := v])"
      by (rule ih [THEN conjunct2, THEN conjunct2, THEN conjunct2])
    have "sl' ! k = slist ! k" if "k < length slist" "slist ! k \<noteq> Unknown" for k
    proof -
      from that i(2) have "k \<noteq> i" by auto
      with IH2 that show ?thesis by simp
    qed
    then have frame: "\<forall>k<length slist. slist ! k \<noteq> Unknown \<longrightarrow> sl' ! k = slist ! k" by blast
    have "fold (\<lambda>w l. l[fst (snd w) := snd (snd w)]) (guess1_writes p slist) slist
        = fold (\<lambda>w l. l[fst (snd w) := snd (snd w)]) (guess1_writes p (slist[i := v])) (slist[i := v])"
      by (simp add: guess1_writes_Write [OF Write])
    with IH4 have "sl' = fold (\<lambda>w l. l[fst (snd w) := snd (snd w)]) (guess1_writes p slist) slist"
      by (rule trans [OF _ sym])
    with IH1 frame IH3 show ?thesis by (intro conjI)
  qed
qed

text \<open>
  Claim C8. Tags only go from unknown to relevant or irrelevant. In a run of \<open>guess1\<close>
  every assignment is at a position that holds \<open>Unknown\<close> at that moment (and held it at
  the start) and writes a tag other than \<open>Unknown\<close>; no position is assigned twice; and
  when the run returns, every tag that was relevant or irrelevant at the start is unchanged,
  the result being the start list with exactly the recorded assignments applied. \<open>guess\<close>
  changes the list through \<open>guess1\<close> only, and no other method assigns to \<open>slist\<close>.
\<close>

theorem tags_written_once:
  "list_all (write_ok slist) (guess1_writes p slist) \<and>
   distinct (written (guess1_writes p slist)) \<and>
   (\<forall>sl'. guess1 p slist = Inr sl' \<longrightarrow>
      length sl' = length slist \<and>
      (\<forall>k<length slist. slist ! k \<noteq> Unknown \<longrightarrow> sl' ! k = slist ! k) \<and>
      sl' = fold (\<lambda>w l. l[fst (snd w) := snd (snd w)]) (guess1_writes p slist) slist) \<and>
   (\<forall>sl'. guess p slist = Inr sl' \<longrightarrow>
      length sl' = length slist \<and>
      (\<forall>k<length slist. slist ! k \<noteq> Unknown \<longrightarrow> sl' ! k = slist ! k))"
proof (intro conjI allI impI)
  show "list_all (write_ok slist) (guess1_writes p slist)"
    and "distinct (written (guess1_writes p slist))"
    using guess1_writes_ok [of slist p] by simp_all
next
  fix sl' assume "guess1 p slist = Inr sl'"
  from guess1_frame [OF this]
  show "length sl' = length slist"
    and "sl' = fold (\<lambda>w l. l[fst (snd w) := snd (snd w)]) (guess1_writes p slist) slist"
    by blast+
next
  fix sl' k assume "guess1 p slist = Inr sl'" and "k < length slist" and "slist ! k \<noteq> Unknown"
  with guess1_frame [of p slist sl'] show "sl' ! k = slist ! k" by blast
next
  fix sl' assume "guess p slist = Inr sl'"
  then have "guess1 p slist = Inr sl'"
    by (simp add: guess_def bindE_def BitVecSort_def split: if_splits)
  from guess1_frame [OF this] show "length sl' = length slist" by blast
next
  fix sl' k assume "guess p slist = Inr sl'" and k: "k < length slist" "slist ! k \<noteq> Unknown"
  then have "guess1 p slist = Inr sl'"
    by (simp add: guess_def bindE_def BitVecSort_def split: if_splits)
  with guess1_frame [of p slist sl'] k show "sl' ! k = slist ! k" by blast
qed

lemma guess1_partly_resolved:
  "guess1 scenario_A [Unknown, Relevant] = Inr [Irrelevant, Relevant] \<and>
   written (guess1_writes scenario_A [Unknown, Relevant]) = [0]"
  by code_simp

theorem tags_written_once_witness:
  "guess1 scenario_A [Unknown, Relevant] = Inr [Irrelevant, Relevant] \<and>
   written (guess1_writes scenario_A [Unknown, Relevant]) = [0] \<and>
   list_all (write_ok [Unknown, Relevant]) (guess1_writes scenario_A [Unknown, Relevant]) \<and>
   [Irrelevant, Relevant] ! 1 = [Unknown, Relevant] ! 1"
proof -
  note t = tags_written_once [of "[Unknown, Relevant]" scenario_A]
  from t have ok: "list_all (write_ok [Unknown, Relevant]) (guess1_writes scenario_A [Unknown, Relevant])"
    by blast
  from t guess1_partly_resolved
  have "\<forall>k<length [Unknown, Relevant]. [Unknown, Relevant] ! k \<noteq> Unknown
          \<longrightarrow> [Irrelevant, Relevant] ! k = [Unknown, Relevant] ! k"
    by blast
  then have "[Irrelevant, Relevant] ! 1 = [Unknown, Relevant] ! 1" by simp
  with ok guess1_partly_resolved show ?thesis by blast
qed

section \<open>The field-spec round trip\<close>

text \<open>Auxiliary: the element of a resolved tag, and the slice read along the reversed list.\<close>

definition spec_element :: "tag \<Rightarrow> fieldSpecElement" where
  "spec_element t = (if t = Relevant then FreeBits 1 else FixedBits ''0'')"

lemma asFieldSpec_resolved:
  assumes "Unknown \<notin> set slist"
  shows "asFieldSpec slist = Inr (map spec_element (rev slist))"
proof -
  have "slLetter_to_FieldSpecElement x = Inr (spec_element (snd x))"
    if "x \<in> set (enumerate 0 slist)" for x
  proof -
    obtain i l where x: "x = (i, l)" by (cases x)
    with that have "(i, l) \<in> set (zip [0..<0 + length slist] slist)"
      by (simp only: enumerate_eq_zip)
    then have "l \<in> set slist" by (rule set_zip_rightD)
    with assms have "l \<noteq> Unknown" by blast
    then show ?thesis
      unfolding x by (cases l) (simp_all add: slLetter_to_FieldSpecElement_def spec_element_def)
  qed
  then have m: "mapE slLetter_to_FieldSpecElement (enumerate 0 slist)
      = Inr (map (\<lambda>x. spec_element (snd x)) (enumerate 0 slist))"
    by (rule mapE_Inr)
  have "map (\<lambda>x. spec_element (snd x)) (enumerate 0 slist)
      = map spec_element (map snd (enumerate 0 slist))"
    by (simp only: map_map comp_def)
  also have "\<dots> = map spec_element slist"
    by (simp only: map_snd_enumerate)
  finally have eq: "map (\<lambda>x. spec_element (snd x)) (enumerate 0 slist) = map spec_element slist" .
  from m have "mapE slLetter_to_FieldSpecElement (enumerate 0 slist) = Inr (map spec_element slist)"
    by (simp only: eq)
  then show ?thesis
    unfolding asFieldSpec_def by (simp add: bindE_def rev_map)
qed

definition slice_msb :: "tag list \<Rightarrow> bool list \<Rightarrow> bool list" where
  "slice_msb xs bits = map snd (filter (\<lambda>rel_bit. fst rel_bit = Relevant) (zip xs bits))"

lemma significantSlice_msb: "significantSlice slist bits = slice_msb (rev slist) bits"
  by (simp add: significantSlice_def filterRelevantMembers_def slice_msb_def)

lemma slice_msb_Cons_Relevant: "slice_msb (Relevant # ts) (b # e) = b # slice_msb ts e"
  by (simp add: slice_msb_def)

lemma slice_msb_Cons_Irrelevant: "slice_msb (Irrelevant # ts) (b # e) = slice_msb ts e"
  by (simp add: slice_msb_def)

lemma enumeration_Irrelevant:
  "encodingspec_to_iter (map spec_element (Irrelevant # ts))
     = map ((#) False) (encodingspec_to_iter (map spec_element ts))"
  by (simp add: spec_element_def)

lemma enumeration_Relevant:
  "encodingspec_to_iter (map spec_element (Relevant # ts))
     = map ((#) False) (encodingspec_to_iter (map spec_element ts)) @
       map ((#) True) (encodingspec_to_iter (map spec_element ts))"
proof -
  have upt2: "[0..<2] = [0, Suc 0]" by (simp add: numeral_2_eq_2)
  show ?thesis by (simp add: spec_element_def upt2 bit_Suc_0_iff)
qed

definition enumeration_ok :: "tag list \<Rightarrow> bool" where
  "enumeration_ok xs =
     (length (encodingspec_to_iter (map spec_element xs)) = 2 ^ count_list xs Relevant \<and>
      distinct (encodingspec_to_iter (map spec_element xs)) \<and>
      (\<forall>enc \<in> set (encodingspec_to_iter (map spec_element xs)). length enc = length xs) \<and>
      inj_on (slice_msb xs) (set (encodingspec_to_iter (map spec_element xs))) \<and>
      slice_msb xs ` set (encodingspec_to_iter (map spec_element xs))
        = {bs. length bs = count_list xs Relevant})"

lemma enumeration_ok_Nil: "enumeration_ok []"
  by (auto simp: enumeration_ok_def slice_msb_def)

lemma enumeration_ok_Irrelevant:
  assumes "enumeration_ok ts"
  shows "enumeration_ok (Irrelevant # ts)"
proof -
  let ?E = "encodingspec_to_iter (map spec_element ts)"
  let ?n = "count_list ts Relevant"
  from assms have IH: "length ?E = 2 ^ ?n" "distinct ?E" "\<forall>enc \<in> set ?E. length enc = length ts"
    "inj_on (slice_msb ts) (set ?E)" "slice_msb ts ` set ?E = {bs. length bs = ?n}"
    by (simp_all add: enumeration_ok_def)
  have len: "length (map ((#) False) ?E) = 2 ^ count_list (Irrelevant # ts) Relevant"
    using IH(1) by simp
  have dist: "distinct (map ((#) False) ?E)"
    using IH(2) by (simp add: distinct_map)
  have lens: "\<forall>enc \<in> set (map ((#) False) ?E). length enc = length (Irrelevant # ts)"
    using IH(3) by simp
  have inj: "inj_on (slice_msb (Irrelevant # ts)) (set (map ((#) False) ?E))"
  proof (rule inj_onI)
    fix u v
    assume "u \<in> set (map ((#) False) ?E)" "v \<in> set (map ((#) False) ?E)"
      and eq: "slice_msb (Irrelevant # ts) u = slice_msb (Irrelevant # ts) v"
    then obtain eu ev where u: "u = False # eu" "eu \<in> set ?E" and v: "v = False # ev" "ev \<in> set ?E"
      by auto
    from eq have "slice_msb ts eu = slice_msb ts ev"
      by (simp add: u v slice_msb_Cons_Irrelevant)
    with IH(4) u(2) v(2) have "eu = ev" by (blast dest: inj_onD)
    then show "u = v" by (simp add: u v)
  qed
  have img: "slice_msb (Irrelevant # ts) ` set (map ((#) False) ?E)
      = {bs. length bs = count_list (Irrelevant # ts) Relevant}"
  proof -
    have "slice_msb (Irrelevant # ts) ` set (map ((#) False) ?E) = slice_msb ts ` set ?E"
      by (simp add: image_image slice_msb_Cons_Irrelevant)
    with IH(5) show ?thesis by simp
  qed
  from len dist lens inj img show ?thesis
    unfolding enumeration_ok_def enumeration_Irrelevant by (intro conjI)
qed

lemma enumeration_ok_Relevant:
  assumes "enumeration_ok ts"
  shows "enumeration_ok (Relevant # ts)"
proof -
  let ?E = "encodingspec_to_iter (map spec_element ts)"
  let ?E' = "map ((#) False) ?E @ map ((#) True) ?E"
  let ?n = "count_list ts Relevant"
  from assms have IH: "length ?E = 2 ^ ?n" "distinct ?E" "\<forall>enc \<in> set ?E. length enc = length ts"
    "inj_on (slice_msb ts) (set ?E)" "slice_msb ts ` set ?E = {bs. length bs = ?n}"
    by (simp_all add: enumeration_ok_def)
  have mem: "u \<in> set ?E' \<longleftrightarrow> (\<exists>b e. u = b # e \<and> e \<in> set ?E)" for u
  proof
    assume "u \<in> set ?E'"
    then show "\<exists>b e. u = b # e \<and> e \<in> set ?E" by auto
  next
    assume "\<exists>b e. u = b # e \<and> e \<in> set ?E"
    then obtain b e where "u = b # e" "e \<in> set ?E" by blast
    then show "u \<in> set ?E'" by (cases b) simp_all
  qed
  have len: "length ?E' = 2 ^ count_list (Relevant # ts) Relevant"
    using IH(1) by simp
  have dist: "distinct ?E'"
  proof -
    have "distinct (map ((#) False) ?E)" "distinct (map ((#) True) ?E)"
      using IH(2) by (simp_all add: distinct_map)
    moreover have "set (map ((#) False) ?E) \<inter> set (map ((#) True) ?E) = {}" by auto
    ultimately show ?thesis by (simp only: distinct_append)
  qed
  have lens: "\<forall>enc \<in> set ?E'. length enc = length (Relevant # ts)"
  proof
    fix enc assume "enc \<in> set ?E'"
    then obtain b e where "enc = b # e" "e \<in> set ?E" unfolding mem by blast
    with IH(3) show "length enc = length (Relevant # ts)" by simp
  qed
  have inj: "inj_on (slice_msb (Relevant # ts)) (set ?E')"
  proof (rule inj_onI)
    fix u v
    assume "u \<in> set ?E'" "v \<in> set ?E'"
      and eq: "slice_msb (Relevant # ts) u = slice_msb (Relevant # ts) v"
    then obtain bu eu bv ev where u: "u = bu # eu" "eu \<in> set ?E" and v: "v = bv # ev" "ev \<in> set ?E"
      unfolding mem by blast
    from eq have b: "bu = bv" and "slice_msb ts eu = slice_msb ts ev"
      by (simp_all add: u v slice_msb_Cons_Relevant)
    with IH(4) u(2) v(2) have "eu = ev" by (blast dest: inj_onD)
    with b show "u = v" by (simp add: u v)
  qed
  have img: "slice_msb (Relevant # ts) ` set ?E' = {bs. length bs = count_list (Relevant # ts) Relevant}"
  proof (intro set_eqI iffI)
    fix bs :: "bool list"
    assume "bs \<in> slice_msb (Relevant # ts) ` set ?E'"
    then obtain u where "u \<in> set ?E'" and bs: "bs = slice_msb (Relevant # ts) u" by blast
    then obtain b e where u: "u = b # e" "e \<in> set ?E" unfolding mem by blast
    from u(2) have "slice_msb ts e \<in> slice_msb ts ` set ?E" by (rule imageI)
    then have "slice_msb ts e \<in> {bs. length bs = ?n}" by (simp only: IH(5))
    then have "length (slice_msb ts e) = ?n" by simp
    then show "bs \<in> {bs. length bs = count_list (Relevant # ts) Relevant}"
      by (simp add: bs u slice_msb_Cons_Relevant)
  next
    fix bs :: "bool list"
    assume "bs \<in> {bs. length bs = count_list (Relevant # ts) Relevant}"
    then obtain b r where bs: "bs = b # r" "length r = ?n" by (cases bs) auto
    from bs(2) have "r \<in> {bs. length bs = ?n}" by simp
    then have "r \<in> slice_msb ts ` set ?E" by (simp only: IH(5))
    then obtain e where e: "e \<in> set ?E" "slice_msb ts e = r" by (auto simp only: image_iff)
    then have "b # e \<in> set ?E'" unfolding mem by blast
    moreover have "bs = slice_msb (Relevant # ts) (b # e)"
      by (simp add: slice_msb_Cons_Relevant bs e)
    ultimately show "bs \<in> slice_msb (Relevant # ts) ` set ?E'" by (rule rev_image_eqI)
  qed
  from len dist lens inj img show ?thesis
    unfolding enumeration_ok_def enumeration_Relevant by (intro conjI)
qed

lemma enumeration_msb: "Unknown \<notin> set xs \<Longrightarrow> enumeration_ok xs"
proof (induction xs)
  case Nil
  show ?case by (rule enumeration_ok_Nil)
next
  case (Cons t ts)
  then have ts: "enumeration_ok ts" and "t \<noteq> Unknown" by auto
  then show ?case
    by (cases t) (simp_all add: enumeration_ok_Irrelevant enumeration_ok_Relevant)
qed

text \<open>
  Claim C9. For every fully resolved sensitivity list of width \<open>W\<close> and entropy \<open>e\<close>,
  \<open>asFieldSpec\<close> returns a field spec whose enumeration has exactly \<open>2 ^ e\<close> encodings,
  pairwise distinct and \<open>W\<close> bits long, and \<open>significantSlice\<close> maps them bijectively onto
  the bit patterns of length \<open>e\<close>.
\<close>

theorem fieldspec_roundtrip:
  assumes "Unknown \<notin> set slist"
  shows "\<exists>fs. asFieldSpec slist = Inr fs \<and>
           length (encodingspec_to_iter fs) = 2 ^ entropy slist \<and>
           distinct (encodingspec_to_iter fs) \<and>
           (\<forall>enc \<in> set (encodingspec_to_iter fs). length enc = length slist) \<and>
           bij_betw (significantSlice slist) (set (encodingspec_to_iter fs))
             {bs. length bs = entropy slist}"
proof -
  let ?fs = "map spec_element (rev slist)"
  from assms have "Unknown \<notin> set (rev slist)" by simp
  then have ok: "enumeration_ok (rev slist)" by (rule enumeration_msb)
  have e: "count_list (rev slist) Relevant = entropy slist"
    by (simp add: entropy_count)
  have sl: "significantSlice slist = slice_msb (rev slist)"
    by (rule ext) (rule significantSlice_msb)
  from ok have "length (encodingspec_to_iter ?fs) = 2 ^ entropy slist"
    and "distinct (encodingspec_to_iter ?fs)"
    and "\<forall>enc \<in> set (encodingspec_to_iter ?fs). length enc = length slist"
    and "bij_betw (significantSlice slist) (set (encodingspec_to_iter ?fs))
           {bs. length bs = entropy slist}"
    unfolding enumeration_ok_def bij_betw_def sl e by simp_all
  with asFieldSpec_resolved [OF assms] show ?thesis by blast
qed

lemma fieldspec_example:
  "asFieldSpec [Irrelevant, Relevant, Relevant] = Inr [FreeBits 1, FreeBits 1, FixedBits ''0'']"
  by (simp add: asFieldSpec_def enumerate_eq_zip upt_rec bindE_def slLetter_to_FieldSpecElement_def)

theorem fieldspec_roundtrip_witness:
  "Unknown \<notin> set [Irrelevant, Relevant, Relevant] \<and>
   asFieldSpec [Irrelevant, Relevant, Relevant] = Inr [FreeBits 1, FreeBits 1, FixedBits ''0''] \<and>
   length (encodingspec_to_iter [FreeBits 1, FreeBits 1, FixedBits ''0''])
     = 2 ^ entropy [Irrelevant, Relevant, Relevant] \<and>
   bij_betw (significantSlice [Irrelevant, Relevant, Relevant])
     (set (encodingspec_to_iter [FreeBits 1, FreeBits 1, FixedBits ''0'']))
     {bs. length bs = entropy [Irrelevant, Relevant, Relevant]}"
proof -
  have h: "Unknown \<notin> set [Irrelevant, Relevant, Relevant]" by simp
  from fieldspec_roundtrip [OF h] obtain fs where
    fs: "asFieldSpec [Irrelevant, Relevant, Relevant] = Inr fs"
    and len: "length (encodingspec_to_iter fs) = 2 ^ entropy [Irrelevant, Relevant, Relevant]"
    and bij: "bij_betw (significantSlice [Irrelevant, Relevant, Relevant])
               (set (encodingspec_to_iter fs)) {bs. length bs = entropy [Irrelevant, Relevant, Relevant]}"
    by (elim exE conjE)
  from fs fieldspec_example have eq: "fs = [FreeBits 1, FreeBits 1, FixedBits ''0'']" by simp
  from h fs len bij show ?thesis unfolding eq by (intro conjI)
qed

text \<open>A list with an unknown tag has no field spec.\<close>

theorem asFieldSpec_unresolved_raises:
  "asFieldSpec [Irrelevant, Unknown, Relevant] = Inl ErrorRaised"
  by code_simp

section \<open>The operand projection\<close>

text \<open>
  Claim C10. For every encoding index \<open>k\<close> of the table, \<^verbatim>\<open>__getitem__(k)\<close> returns
  \<^verbatim>\<open>OPS[k][opIndex]\<close> when \<^verbatim>\<open>SHAPES[k]\<close> is the target shape and the integer \<open>-1\<close>
  otherwise; so an in-shape encoding whose operand is \<open>-1\<close> and an out-of-shape encoding
  give the same value.
\<close>

theorem getitem_sentinel:
  assumes "k < length (SHAPES self)"
  shows "(SHAPES self ! k \<noteq> correctShape self \<longrightarrow> getitem self k = Inr (- 1)) \<and>
         (SHAPES self ! k = correctShape self \<longrightarrow>
            getitem self k = bindE (py_nth (OPS self) k) (\<lambda>ops. py_nth ops (opIndex self))) \<and>
         (SHAPES self ! k = correctShape self \<and> k < length (OPS self) \<and>
          opIndex self < length (OPS self ! k) \<longrightarrow>
            getitem self k = Inr (OPS self ! k ! opIndex self)) \<and>
         (\<forall>k'. SHAPES self ! k = correctShape self \<and> k < length (OPS self) \<and>
               opIndex self < length (OPS self ! k) \<and> OPS self ! k ! opIndex self = - 1 \<and>
               k' < length (SHAPES self) \<and> SHAPES self ! k' \<noteq> correctShape self \<longrightarrow>
               getitem self k = getitem self k')"
  using assms by (simp add: getitem_def py_nth_def bindE_def)

definition example_projection :: OperandProjection where
  "example_projection = \<lparr>OPS = [[- 1], [5]], SHAPES = [0, 1], correctShape = 0, opIndex = 0\<rparr>"

theorem getitem_sentinel_witness:
  "0 < length (SHAPES example_projection) \<and>
   SHAPES example_projection ! 0 = correctShape example_projection \<and>
   SHAPES example_projection ! 1 \<noteq> correctShape example_projection \<and>
   OPS example_projection ! 0 ! opIndex example_projection = - 1 \<and>
   getitem example_projection 0 = Inr (- 1) \<and>
   getitem example_projection 0 = getitem example_projection 1"
proof -
  have h: "0 < length (SHAPES example_projection)" by (simp add: example_projection_def)
  note t = getitem_sentinel [OF h]
  have facts: "SHAPES example_projection ! 0 = correctShape example_projection"
    "SHAPES example_projection ! 1 \<noteq> correctShape example_projection"
    "OPS example_projection ! 0 ! opIndex example_projection = - 1"
    "0 < length (OPS example_projection)"
    "opIndex example_projection < length (OPS example_projection ! 0)"
    "1 < length (SHAPES example_projection)"
    by (simp_all add: example_projection_def)
  from t facts have "getitem example_projection 0 = Inr (OPS example_projection ! 0 ! opIndex example_projection)"
    by blast
  moreover from t facts have "getitem example_projection 0 = getitem example_projection 1"
    by blast
  ultimately show ?thesis using h facts by simp
qed

end
